theory Spec2Isabelle
  imports Complex_Main
begin

section \<open>Arrays, errors and the classifier record\<close>

text \<open>
  The program is \<^verbatim>\<open>labs/lab02/lab02_gaussian_classifier.py\<close>. Its numbers are
  float64; the embedding reads them as real numbers, so every statement below is about
  the exact arithmetic the code approximates. A two-dimensional array carries its
  second dimension explicitly, because an array with no rows still has one
  (\<^verbatim>\<open>X.shape[1]\<close>); \<open>rows\<close> is the list of its rows.
\<close>

datatype matrix = Matrix (ncols: nat) (rows: "real list list")

definition shape0 :: "matrix \<Rightarrow> nat" where
  "shape0 X = length (rows X)"

text \<open>
  \<open>UnsupportedCovarianceMode\<close> is the \<^verbatim>\<open>ValueError\<close> raised on line 73; the other
  constructors are the exceptions numpy, Python and scikit-learn raise inside the calls.
\<close>

datatype error = UnsupportedCovarianceMode string | IndexError | ValueError

record GaussianClassifier =
  gtype :: string
  priors :: "real list"
  means :: "real list list"
  variances :: "real list"

text \<open>\<^verbatim>\<open>np.clip(v, lo, None)\<close> on a number.\<close>

definition clip_lo :: "real \<Rightarrow> real \<Rightarrow> real" where
  "clip_lo lo v = max v lo"

section \<open>fit\_gaussian\_classifier\<close>

text \<open>\<^verbatim>\<open>np.unique\<close>: the distinct labels, ascending.\<close>

definition unique :: "int list \<Rightarrow> int list" where
  "unique y = sort (remdups y)"

text \<open>\<^verbatim>\<open>X[y == k]\<close>: the rows whose label is \<open>k\<close>, in order.\<close>

definition mask_rows :: "real list list \<Rightarrow> int list \<Rightarrow> int \<Rightarrow> real list list" where
  "mask_rows xs y k = map fst (filter (\<lambda>p. snd p = k) (zip xs y))"

text \<open>\<^verbatim>\<open>Xk.mean(axis=0)\<close> for an array with \<open>D\<close> columns.\<close>

definition mean_axis0 :: "nat \<Rightarrow> real list list \<Rightarrow> real list" where
  "mean_axis0 D Xk = map (\<lambda>d. (\<Sum>x\<leftarrow>Xk. x ! d) / real (length Xk)) [0..<D]"

text \<open>\<^verbatim>\<open>np.sum((Xk - mu) ** 2, axis=1)\<close>: one squared distance per row.\<close>

definition sq_norm :: "real list \<Rightarrow> real list list \<Rightarrow> real list" where
  "sq_norm mu Xk = map (\<lambda>x. \<Sum>p\<leftarrow>zip x mu. (fst p - snd p)\<^sup>2) Xk"

record fit_acc =
  acc_priors :: "real list"
  acc_means :: "real list list"
  acc_variances :: "real list"

text \<open>One pass of the loop of lines 85 to 90, at position \<open>idx\<close> and label \<open>k\<close>.\<close>

definition fit_step :: "matrix \<Rightarrow> int list \<Rightarrow> string \<Rightarrow> nat \<times> int \<Rightarrow> fit_acc \<Rightarrow> fit_acc" where
  "fit_step X y g ik s =
     (let idx = fst ik; k = snd ik;
          Xk = mask_rows (rows X) y k;
          D = ncols X;
          mu = mean_axis0 D Xk;
          j = (if g = ''I'' then idx else 0)
      in \<lparr>acc_priors = (acc_priors s)[idx := real (length Xk) / real (shape0 X)],
          acc_means = (acc_means s)[idx := mu],
          acc_variances = (acc_variances s)
             [j := acc_variances s ! j + sum_list (sq_norm mu Xk) / real (length Xk * D)]\<rparr>)"

text \<open>
  The mask \<^verbatim>\<open>y == k\<close> must be as long as \<open>X\<close> has rows, or numpy raises
  \<^verbatim>\<open>IndexError\<close> in the first pass of the loop; with no label there is no pass.
\<close>

definition fit_gaussian_classifier :: "matrix \<Rightarrow> int list \<Rightarrow> string \<Rightarrow> error + GaussianClassifier" where
  "fit_gaussian_classifier X y g =
     (if g \<notin> {''I'', ''i''} then Inl (UnsupportedCovarianceMode g)
      else
        let classes = unique y; K = length classes; D = ncols X in
        if classes \<noteq> [] \<and> length y \<noteq> shape0 X then Inl IndexError
        else
          let s0 = \<lparr>acc_priors = replicate K 0,
                    acc_means = replicate K (replicate D 0),
                    acc_variances = replicate (if g = ''I'' then K else 1) 0\<rparr>;
              s = fold (fit_step X y g) (enumerate 0 classes) s0;
              vs = (if g = ''I'' then map (clip_lo (1 / 10 ^ 9)) (acc_variances s)
                    else map (\<lambda>_. clip_lo (1 / 10 ^ 9) (acc_variances s ! 0 / real K))
                           (acc_variances s))
          in Inr \<lparr>gtype = g, priors = acc_priors s, means = acc_means s, variances = vs\<rparr>)"

section \<open>gaussian\_pdf\<close>

text \<open>The four arrays of the returned tuple, in the order of line 127.\<close>

record pdf_out =
  px :: "real list"
  px_given_c :: "real list list"
  p_c_given_x :: "real list list"
  px_and_c :: "real list list"

text \<open>
  Lines 117 to 120 for one class: the density of every row of the query array.
  Python's float power is read as \<open>powr\<close>, which agrees with it for a positive base,
  and \<^verbatim>\<open>X - mean\<close> as the difference of two vectors of the same length.
\<close>

definition class_density :: "nat \<Rightarrow> real list \<Rightarrow> real \<Rightarrow> real list list \<Rightarrow> real list" where
  "class_density D mean sigma2 xs =
     (let coef = 1 / ((2 * pi * sigma2) powr (real D / 2))
      in map (\<lambda>x. coef * exp (- (1 / 2) * (\<Sum>p\<leftarrow>zip x mean. (fst p - snd p) * (fst p - snd p)) / sigma2)) xs)"

text \<open>\<^verbatim>\<open>M[:, k] = col\<close>.\<close>

definition set_column :: "nat \<Rightarrow> real list \<Rightarrow> real list list \<Rightarrow> real list list" where
  "set_column k col M = map (\<lambda>p. (fst p)[k := snd p]) (zip M col)"

text \<open>
  One pass of the loop of lines 110 to 120. Reading \<^verbatim>\<open>model.means[k]\<close> or the
  variance beyond the end of the array raises \<^verbatim>\<open>IndexError\<close>.
\<close>

definition pdf_step :: "matrix \<Rightarrow> GaussianClassifier \<Rightarrow> nat \<Rightarrow> error + real list list \<Rightarrow> error + real list list" where
  "pdf_step X m k acc =
     (case acc of
        Inl e \<Rightarrow> Inl e
      | Inr M \<Rightarrow>
          if length (means m) \<le> k then Inl IndexError
          else
            let j = (if gtype m = ''i'' then 0 else k) in
            if length (variances m) \<le> j then Inl IndexError
            else Inr (set_column k
                   (class_density (ncols X) (means m ! k) (variances m ! j) (rows X)) M))"

definition gaussian_pdf :: "matrix \<Rightarrow> GaussianClassifier \<Rightarrow> error + pdf_out" where
  "gaussian_pdf X m =
     (let K = length (priors m) in
      case fold (pdf_step X m) [0..<K] (Inr (replicate (shape0 X) (replicate K 0))) of
        Inl e \<Rightarrow> Inl e
      | Inr pxc \<Rightarrow>
          let dot = map (\<lambda>row. \<Sum>p\<leftarrow>zip row (priors m). fst p * snd p) pxc;
              ev = map (clip_lo (1 / 10 ^ 12)) dot;
              joint = map (\<lambda>row. map (\<lambda>p. fst p * snd p) (zip row (priors m))) pxc;
              post = map (\<lambda>p. map (\<lambda>v. v / snd p) (fst p)) (zip joint ev)
          in Inr \<lparr>px = ev, px_given_c = pxc, p_c_given_x = post, px_and_c = joint\<rparr>)"

section \<open>evaluate\_classifier\<close>

text \<open>
  \<^verbatim>\<open>argmax\<close> of one row: a left-to-right scan that keeps the first largest entry.
  numpy raises on a row of length \<open>0\<close>; \<open>evaluate_classifier\<close> has that branch before
  it calls \<open>argmax\<close>.
\<close>

fun argmax_scan :: "nat \<Rightarrow> real \<Rightarrow> nat \<Rightarrow> real list \<Rightarrow> nat" where
  "argmax_scan best v i [] = best"
| "argmax_scan best v i (x # xs) =
     (if v < x then argmax_scan i x (Suc i) xs else argmax_scan best v (Suc i) xs)"

definition argmax :: "real list \<Rightarrow> nat" where
  "argmax row = (case row of [] \<Rightarrow> 0 | x # xs \<Rightarrow> argmax_scan 0 x 1 xs)"

text \<open>
  What scikit-learn's \<^verbatim>\<open>confusion_matrix(y_true, y_pred, labels=labels)\<close> is
  documented to return: entry \<open>(i, j)\<close> counts the samples whose true label is the
  \<open>i\<close>-th of \<open>labels\<close> and whose predicted label is the \<open>j\<close>-th; a sample with a label
  outside \<open>labels\<close> is counted nowhere.
\<close>

definition confusion_matrix :: "int list \<Rightarrow> int list \<Rightarrow> int list \<Rightarrow> nat list list" where
  "confusion_matrix y_true y_pred labels =
     map (\<lambda>a. map (\<lambda>b. length (filter (\<lambda>p. fst p = a \<and> snd p = b) (zip y_true y_pred))) labels)
       labels"

text \<open>
  The quotient of line 142 is computed by numpy with the warnings silenced: a zero
  divisor gives a NaN or an infinity, which \<^verbatim>\<open>nan_to_num\<close> then replaces by \<open>0\<close> and
  by the largest float64.
\<close>

datatype npfloat = Num real | NaN | PosInf | NegInf

definition true_divide :: "real \<Rightarrow> real \<Rightarrow> npfloat" where
  "true_divide a b =
     (if b \<noteq> 0 then Num (a / b) else if a = 0 then NaN else if 0 < a then PosInf else NegInf)"

definition float_max :: real where
  "float_max = (2 ^ 53 - 1) * 2 ^ 971"

definition nan_to_num :: "npfloat \<Rightarrow> real" where
  "nan_to_num v = (case v of Num r \<Rightarrow> r | NaN \<Rightarrow> 0 | PosInf \<Rightarrow> float_max | NegInf \<Rightarrow> - float_max)"

definition normalize_rows :: "nat list list \<Rightarrow> real list list" where
  "normalize_rows C =
     map (\<lambda>row. map (\<lambda>c. nan_to_num (true_divide (real c) (real (sum_list row)))) row) C"

text \<open>
  The dictionary of line 145. When there are two labels the code adds three entries
  computed by scikit-learn's \<^verbatim>\<open>roc_curve\<close> and \<^verbatim>\<open>auc\<close>; the record leaves them out.
\<close>

record metrics =
  y_pred :: "nat list"
  error_rate :: real
  confusion :: "nat list list"
  confusion_norm :: "real list list"
  posteriors :: "real list list"

text \<open>
  The exceptions of the library calls are branches: \<^verbatim>\<open>argmax\<close> over rows of
  length \<open>0\<close>, the comparison and the confusion matrix of arrays of different lengths,
  a confusion matrix with no label, and, when there are two labels, column \<open>1\<close> of a
  posterior with a single column and labels that \<^verbatim>\<open>roc_curve\<close> does not take for
  binary (anything but \<open>0, 1\<close> and \<open>-1, 1\<close>).
\<close>

definition evaluate_classifier :: "matrix \<Rightarrow> int list \<Rightarrow> GaussianClassifier \<Rightarrow> error + metrics" where
  "evaluate_classifier X y m =
     (case gaussian_pdf X m of
        Inl e \<Rightarrow> Inl e
      | Inr out \<Rightarrow>
          if length (priors m) = 0 then Inl ValueError
          else if length y \<noteq> shape0 X then Inl ValueError
          else
            let post = p_c_given_x out;
                pred = map argmax post;
                err = real (length (filter (\<lambda>p. int (fst p) \<noteq> snd p) (zip pred y)))
                        / real (length pred);
                labels = unique y in
            if labels = [] then Inl ValueError
            else
              let counts = confusion_matrix y (map int pred) labels in
              if length labels = 2 \<and> length (priors m) < 2 then Inl IndexError
              else if length labels = 2 \<and> labels \<noteq> [0, 1] \<and> labels \<noteq> [-1, 1] then Inl ValueError
              else Inr \<lparr>y_pred = pred, error_rate = err, confusion = counts,
                        confusion_norm = normalize_rows counts, posteriors = post\<rparr>)"

section \<open>gm\_sample\<close>

text \<open>
  \<open>gm_sample\<close> writes to an array it may share with its caller, so its arrays live in
  a store. A one-dimensional argument is either a reference to an array of the store
  or a plain Python sequence. \<^verbatim>\<open>np.asarray(a, dtype=float)\<close> returns the array
  itself when it is already a float64 array, and a fresh copy otherwise.
\<close>

datatype dtype = Float64 | Int64

record vec =
  v_dtype :: dtype
  v_data :: "real list"

type_synonym store = "nat \<Rightarrow> vec"

datatype arraylike = Ref nat | Seq "real list"

text \<open>The address the result shares with the store, if any, and its contents.\<close>

definition asarray_float :: "store \<Rightarrow> arraylike \<Rightarrow> nat option \<times> real list" where
  "asarray_float h a =
     (case a of
        Seq xs \<Rightarrow> (None, xs)
      | Ref r \<Rightarrow> (if v_dtype (h r) = Float64 then (Some r, v_data (h r)) else (None, v_data (h r))))"

text \<open>\<^verbatim>\<open>arr /= s\<close>: the division happens in place, in the store when the array is shared.\<close>

definition idiv_inplace :: "store \<Rightarrow> nat option \<times> real list \<Rightarrow> real \<Rightarrow> store \<times> real list" where
  "idiv_inplace h arr s =
     (let d = map (\<lambda>x. x / s) (snd arr)
      in case fst arr of
           None \<Rightarrow> (h, d)
         | Some r \<Rightarrow> (h(r := \<lparr>v_dtype = Float64, v_data = d\<rparr>), d))"

text \<open>
  numpy's random generator is a parameter: how a generator is seeded, and the two
  draws the function makes, each returning the advanced generator.
  \<open>choice g K n p\<close> is \<^verbatim>\<open>rng.choice(K, size=n, p=p)\<close>, which raises
  \<^verbatim>\<open>ValueError\<close> on a \<open>p\<close> that is not a probability vector, and
  \<open>normal g loc scale n D\<close> is \<^verbatim>\<open>rng.normal(loc=loc, scale=scale, size=(n, D))\<close>.
\<close>

record 'g generator =
  default_rng :: "nat \<Rightarrow> 'g"
  choice :: "'g \<Rightarrow> nat \<Rightarrow> nat \<Rightarrow> real list \<Rightarrow> error + nat list \<times> 'g"
  normal :: "'g \<Rightarrow> real list \<Rightarrow> real \<Rightarrow> nat \<Rightarrow> nat \<Rightarrow> real list list \<times> 'g"

text \<open>\<^verbatim>\<open>X[idx] = block\<close>: the rows of the block go to the marked positions, in order.\<close>

fun scatter :: "bool list \<Rightarrow> 'a list \<Rightarrow> 'a list \<Rightarrow> 'a list" where
  "scatter (True # bs) (r # rs) (x # xs) = r # scatter bs rs xs"
| "scatter (b # bs) blk (x # xs) = x # scatter bs blk xs"
| "scatter bs blk xs = xs"

text \<open>
  One pass of the loop of lines 59 to 64. \<^verbatim>\<open>math.sqrt\<close> of a negative variance
  raises \<^verbatim>\<open>ValueError\<close>; the variance and the mean of a component beyond the arrays
  raise \<^verbatim>\<open>IndexError\<close>.
\<close>

definition sample_step ::
  "'g generator \<Rightarrow> matrix \<Rightarrow> real list \<Rightarrow> nat list \<Rightarrow> nat
     \<Rightarrow> error + real list list \<times> 'g \<Rightarrow> error + real list list \<times> 'g" where
  "sample_step G mu vars components k acc =
     (case acc of
        Inl e \<Rightarrow> Inl e
      | Inr (X, g) \<Rightarrow>
          let idx = map (\<lambda>c. c = k) components in
          if \<not> list_ex (\<lambda>b. b) idx then Inr (X, g)
          else if length vars \<le> k then Inl IndexError
          else if vars ! k < 0 then Inl ValueError
          else if length (rows mu) \<le> k then Inl IndexError
          else
            let sigma = sqrt (vars ! k);
                drawn = normal G g (rows mu ! k) sigma (length (filter (\<lambda>b. b) idx)) (ncols mu)
            in Inr (scatter idx (fst drawn) X, snd drawn))"

text \<open>
  Besides the store and the arguments the call reads two things of its environment:
  the entropy of the operating system, which seeds the generator when
  \<^verbatim>\<open>random_state\<close> is \<^verbatim>\<open>None\<close>, and whatever the memory that \<^verbatim>\<open>np.empty\<close> hands
  out holds (\<open>mem i j\<close> at row \<open>i\<close>, column \<open>j\<close>). A sum of the priors of \<open>0\<close> leaves no
  probability vector, and \<^verbatim>\<open>rng.choice\<close> raises. The result is the store after the
  call and the returned pair.
\<close>

definition gm_sample ::
  "'g generator \<Rightarrow> nat \<Rightarrow> (nat \<Rightarrow> nat \<Rightarrow> real) \<Rightarrow> store \<Rightarrow> nat \<Rightarrow> arraylike \<Rightarrow> matrix \<Rightarrow> arraylike
     \<Rightarrow> nat option \<Rightarrow> error + store \<times> matrix \<times> nat list" where
  "gm_sample G entropy mem h n_samples priors_arg mu variances_arg random_state =
     (let p0 = asarray_float h priors_arg;
          psum = sum_list (snd p0) in
      if psum = 0 then Inl ValueError
      else
        let hp = idiv_inplace h p0 psum;
            h' = fst hp;
            p = snd hp;
            vars = snd (asarray_float h' variances_arg);
            rng = default_rng G (case random_state of None \<Rightarrow> entropy | Some seed \<Rightarrow> seed);
            n_components = length p
        in case choice G rng n_components n_samples p of
             Inl e \<Rightarrow> Inl e
           | Inr (components, rng') \<Rightarrow>
               let X0 = map (\<lambda>i. map (mem i) [0..<ncols mu]) [0..<n_samples]
               in (case fold (sample_step G mu vars components) [0..<n_components] (Inr (X0, rng')) of
                     Inl e \<Rightarrow> Inl e
                   | Inr (X, _) \<Rightarrow> Inr (h', Matrix (ncols mu) X, components)))"

text \<open>What numpy documents of \<^verbatim>\<open>choice\<close>: \<open>n\<close> indices, each below \<open>K\<close>.\<close>

definition choice_in_range :: "'g generator \<Rightarrow> bool" where
  "choice_in_range G =
     (\<forall>g K n p cs g'. choice G g K n p = Inr (cs, g') \<longrightarrow> length cs = n \<and> (\<forall>c\<in>set cs. c < K))"

text \<open>\<open>normal\<close> returns an array of the shape it was asked for.\<close>

definition normal_shape :: "'g generator \<Rightarrow> bool" where
  "normal_shape G = (\<forall>g loc scale n D. length (fst (normal G g loc scale n D)) = n)"

text \<open>
  Lines 54 to 66 as a function of the store and the arrays that lines 49 to 52 leave.
\<close>

definition gm_draw ::
  "'g generator \<Rightarrow> nat \<Rightarrow> (nat \<Rightarrow> nat \<Rightarrow> real) \<Rightarrow> store \<Rightarrow> real list \<Rightarrow> matrix \<Rightarrow> real list \<Rightarrow> nat
     \<Rightarrow> nat option \<Rightarrow> error + store \<times> matrix \<times> nat list" where
  "gm_draw G entropy mem h' p mu vars n_samples random_state =
     (let rng = default_rng G (case random_state of None \<Rightarrow> entropy | Some seed \<Rightarrow> seed);
          n_components = length p
      in case choice G rng n_components n_samples p of
           Inl e \<Rightarrow> Inl e
         | Inr (components, rng') \<Rightarrow>
             let X0 = map (\<lambda>i. map (mem i) [0..<ncols mu]) [0..<n_samples]
             in (case fold (sample_step G mu vars components) [0..<n_components] (Inr (X0, rng')) of
                   Inl e \<Rightarrow> Inl e
                 | Inr (X, _) \<Rightarrow> Inr (h', Matrix (ncols mu) X, components)))"

text \<open>
  Two states of the sampling loop agree below \<open>k\<close> when both raised the same
  exception, or hold the same generator and arrays that coincide in every row whose
  component is below \<open>k\<close>.
\<close>

definition agree_below ::
  "nat list \<Rightarrow> nat \<Rightarrow> error + real list list \<times> 'g \<Rightarrow> error + real list list \<times> 'g \<Rightarrow> bool" where
  "agree_below components k a b =
     (case a of
        Inl e \<Rightarrow> b = Inl e
      | Inr sa \<Rightarrow>
          (case b of
             Inl _ \<Rightarrow> False
           | Inr sb \<Rightarrow>
               snd sa = snd sb
               \<and> length (fst sa) = length components \<and> length (fst sb) = length components
               \<and> (\<forall>i<length components. components ! i < k \<longrightarrow> fst sa ! i = fst sb ! i)))"

text \<open>
  A generator for the examples, and the mixture of the main program before its own
  normalisation: the priors \<open>2, 1\<close> at address \<open>0\<close> and the variances at address \<open>1\<close>,
  both float64 arrays.
\<close>

definition toy_rng :: "nat generator" where
  "toy_rng =
     \<lparr>default_rng = (\<lambda>seed. seed),
      choice = (\<lambda>g K n p. if K = 0 \<and> 0 < n then Inl ValueError
                           else Inr (map (\<lambda>i. if even (g + i) then 0 else K - 1) [0..<n], Suc g)),
      normal = (\<lambda>g loc scale n D. (replicate n (map (\<lambda>c. c + scale * real g) loc), Suc g))\<rparr>"

definition mixture_store :: store where
  "mixture_store =
     (\<lambda>a. if a = 0 then \<lparr>v_dtype = Float64, v_data = [2, 1]\<rparr>
          else \<lparr>v_dtype = Float64, v_data = [1 / 2, 3]\<rparr>)"

definition mixture_means :: matrix where
  "mixture_means = Matrix 1 [[0], [2]]"

definition normalized_store :: store where
  "normalized_store = mixture_store(0 := \<lparr>v_dtype = Float64, v_data = [2 / 3, 1 / 3]\<rparr>)"

definition toy_sample :: "matrix \<times> nat list" where
  "toy_sample = (Matrix 1 [[2 + sqrt 3 * 39], [sqrt (1 / 2) * 38], [2 + sqrt 3 * 39]], [1, 0, 1])"

section \<open>Quantities the statements are about\<close>

text \<open>
  A labeled dataset: as many labels as rows, and every row as long as the array is
  wide.
\<close>

definition labeled_dataset :: "matrix \<Rightarrow> int list \<Rightarrow> bool" where
  "labeled_dataset X y = (length y = shape0 X \<and> list_all (\<lambda>x. length x = ncols X) (rows X))"

text \<open>What the loop of \<open>fit_gaussian_classifier\<close> computes for one label.\<close>

definition class_prior :: "matrix \<Rightarrow> int list \<Rightarrow> int \<Rightarrow> real" where
  "class_prior X y k = real (length (mask_rows (rows X) y k)) / real (shape0 X)"

definition class_mean :: "matrix \<Rightarrow> int list \<Rightarrow> int \<Rightarrow> real list" where
  "class_mean X y k = mean_axis0 (ncols X) (mask_rows (rows X) y k)"

definition class_scatter :: "matrix \<Rightarrow> int list \<Rightarrow> int \<Rightarrow> real" where
  "class_scatter X y k =
     sum_list (sq_norm (class_mean X y k) (mask_rows (rows X) y k))
       / real (length (mask_rows (rows X) y k) * ncols X)"






text \<open>The dataset of the worked example: \<open>-1, 0, 1\<close> labeled \<open>0\<close> and \<open>3, 4, 5\<close> labeled \<open>1\<close>.\<close>

definition example_X :: matrix where
  "example_X = Matrix 1 [[-1], [0], [1], [3], [4], [5]]"

definition example_y :: "int list" where
  "example_y = [0, 0, 0, 1, 1, 1]"

section \<open>Shapes and rows of gaussian\_pdf\<close>

text \<open>
  The shapes the dataclass declares: \<open>K\<close> means of dimension \<open>D\<close>, and \<open>K\<close> variances
  in the per-class mode or one in the shared mode. A query array has rows of its width.
\<close>

definition wf_model :: "nat \<Rightarrow> GaussianClassifier \<Rightarrow> bool" where
  "wf_model D m =
     (length (means m) = length (priors m)
      \<and> list_all (\<lambda>mu. length mu = D) (means m)
      \<and> length (variances m) = (if gtype m = ''i'' then 1 else length (priors m)))"



text \<open>
  The loop of \<open>gaussian_pdf\<close> read row by row: the variance class \<open>k\<close> uses, the
  density of one point, the densities of all classes at a point, and the joint,
  evidence and posterior of a row of densities.
\<close>

definition sigma2_of :: "GaussianClassifier \<Rightarrow> nat \<Rightarrow> real" where
  "sigma2_of m k = variances m ! (if gtype m = ''i'' then 0 else k)"

definition gauss :: "nat \<Rightarrow> real list \<Rightarrow> real \<Rightarrow> real list \<Rightarrow> real" where
  "gauss D mean sigma2 x =
     1 / ((2 * pi * sigma2) powr (real D / 2))
       * exp (- (1 / 2) * (\<Sum>p\<leftarrow>zip x mean. (fst p - snd p) * (fst p - snd p)) / sigma2)"

definition densities :: "matrix \<Rightarrow> GaussianClassifier \<Rightarrow> real list \<Rightarrow> real list" where
  "densities X m x =
     map (\<lambda>k. gauss (ncols X) (means m ! k) (sigma2_of m k) x) [0..<length (priors m)]"

definition joint_row :: "GaussianClassifier \<Rightarrow> real list \<Rightarrow> real list" where
  "joint_row m row = map (\<lambda>p. fst p * snd p) (zip row (priors m))"

definition evidence_row :: "GaussianClassifier \<Rightarrow> real list \<Rightarrow> real" where
  "evidence_row m row = clip_lo (1 / 10 ^ 12) (sum_list (joint_row m row))"

definition posterior_row :: "GaussianClassifier \<Rightarrow> real list \<Rightarrow> real list" where
  "posterior_row m row = map (\<lambda>v. v / evidence_row m row) (joint_row m row)"


definition unit_model :: GaussianClassifier where
  "unit_model = \<lparr>gtype = ''I'', priors = [1], means = [[0]], variances = [1]\<rparr>"

definition origin_query :: matrix where
  "origin_query = Matrix 1 [[0]]"

definition far_density :: real where
  "far_density = gauss 1 [0] 1 [10]"


definition example_model :: "string \<Rightarrow> GaussianClassifier" where
  "example_model g =
     \<lparr>gtype = g, priors = [1 / 2, 1 / 2], means = [[0], [4]],
      variances = (if g = ''I'' then [2 / 3, 2 / 3] else [2 / 3])\<rparr>"


text \<open>
  Inputs on which no library call of \<open>evaluate_classifier\<close> raises: a model of the
  declared shapes with at least one class, a labeled dataset with at least one sample
  and, when it has two labels, labels and a posterior that \<^verbatim>\<open>roc_curve\<close> accepts.
\<close>

definition scorable :: "matrix \<Rightarrow> int list \<Rightarrow> GaussianClassifier \<Rightarrow> bool" where
  "scorable X y m =
     (wf_model (ncols X) m \<and> 0 < length (priors m) \<and> labeled_dataset X y \<and> y \<noteq> []
      \<and> (length (unique y) = 2 \<longrightarrow>
            2 \<le> length (priors m) \<and> (unique y = [0, 1] \<or> unique y = [-1, 1])))"

section \<open>The fitting loop in closed form\<close>

lemma fold_update_enumerate:
  "n + length ks \<le> length xs \<Longrightarrow>
   fold (\<lambda>ik xs. xs[fst ik := f (snd ik)]) (enumerate n ks) xs
     = take n xs @ map f ks @ drop (n + length ks) xs"
proof (induction ks arbitrary: n xs)
  case Nil
  then show ?case by simp
next
  case (Cons k ks)
  have n: "n < length xs" using Cons.prems by simp
  have "fold (\<lambda>ik xs. xs[fst ik := f (snd ik)]) (enumerate n (k # ks)) xs
      = fold (\<lambda>ik xs. xs[fst ik := f (snd ik)]) (enumerate (Suc n) ks) (xs[n := f k])"
    by simp
  also have "\<dots> = take (Suc n) (xs[n := f k]) @ map f ks @ drop (Suc n + length ks) (xs[n := f k])"
    using Cons.prems by (intro Cons.IH) simp
  also have "take (Suc n) (xs[n := f k]) = take n xs @ [f k]"
    using n by (simp add: take_Suc_conv_app_nth)
  also have "drop (Suc n + length ks) (xs[n := f k]) = drop (n + length (k # ks)) xs"
    by simp
  finally show ?case by simp
qed

lemma fold_accumulate_enumerate:
  "n + length ks \<le> length xs \<Longrightarrow>
   fold (\<lambda>ik xs. xs[fst ik := xs ! fst ik + w (snd ik)]) (enumerate n ks) xs
     = take n xs @ map (\<lambda>ik. xs ! fst ik + w (snd ik)) (enumerate n ks) @ drop (n + length ks) xs"
proof (induction ks arbitrary: n xs)
  case Nil
  then show ?case by simp
next
  case (Cons k ks)
  let ?xs' = "xs[n := xs ! n + w k]"
  have n: "n < length xs" using Cons.prems by simp
  have same: "map (\<lambda>ik. ?xs' ! fst ik + w (snd ik)) (enumerate (Suc n) ks)
            = map (\<lambda>ik. xs ! fst ik + w (snd ik)) (enumerate (Suc n) ks)"
    by (rule map_cong[OF refl]) (auto simp: in_set_enumerate_eq)
  have "fold (\<lambda>ik xs. xs[fst ik := xs ! fst ik + w (snd ik)]) (enumerate n (k # ks)) xs
      = fold (\<lambda>ik xs. xs[fst ik := xs ! fst ik + w (snd ik)]) (enumerate (Suc n) ks) ?xs'"
    by simp
  also have "\<dots> = take (Suc n) ?xs' @ map (\<lambda>ik. ?xs' ! fst ik + w (snd ik)) (enumerate (Suc n) ks)
                     @ drop (Suc n + length ks) ?xs'"
    using Cons.prems by (intro Cons.IH) simp
  also have "take (Suc n) ?xs' = take n xs @ [xs ! n + w k]"
    using n by (simp add: take_Suc_conv_app_nth)
  also have "drop (Suc n + length ks) ?xs' = drop (n + length (k # ks)) xs"
    by simp
  finally show ?case by (simp add: same)
qed

lemma fold_accumulate_head:
  "fold (\<lambda>ik xs. xs[0 := xs ! 0 + w (snd ik)]) es [v] = [v + sum_list (map (\<lambda>ik. w (snd ik)) es)]"
  by (induction es arbitrary: v) (simp_all add: add.assoc)

lemma fit_step_priors:
  "acc_priors (fold (fit_step X y g) es s)
     = fold (\<lambda>ik xs. xs[fst ik := class_prior X y (snd ik)]) es (acc_priors s)"
  by (induction es arbitrary: s) (simp_all add: fit_step_def class_prior_def Let_def)

lemma fit_step_means:
  "acc_means (fold (fit_step X y g) es s)
     = fold (\<lambda>ik xs. xs[fst ik := class_mean X y (snd ik)]) es (acc_means s)"
  by (induction es arbitrary: s) (simp_all add: fit_step_def class_mean_def Let_def)

lemma fit_step_variances_I:
  "acc_variances (fold (fit_step X y ''I'') es s)
     = fold (\<lambda>ik xs. xs[fst ik := xs ! fst ik + class_scatter X y (snd ik)]) es (acc_variances s)"
  by (induction es arbitrary: s) (simp_all add: fit_step_def class_scatter_def class_mean_def Let_def)

lemma fit_step_variances_i:
  "acc_variances (fold (fit_step X y ''i'') es s)
     = fold (\<lambda>ik xs. xs[0 := xs ! 0 + class_scatter X y (snd ik)]) es (acc_variances s)"
  by (induction es arbitrary: s) (simp_all add: fit_step_def class_scatter_def class_mean_def Let_def)

lemma map_snd_of_enumerate: "map (\<lambda>ik. f (snd ik)) (enumerate n ks) = map f ks"
  by (induction ks arbitrary: n) simp_all

lemma map_replicate_zero_enumerate:
  "map (\<lambda>ik. replicate (length ks) (0::real) ! fst ik + w (snd ik)) (enumerate 0 ks) = map w ks"
proof -
  have "map (\<lambda>ik. replicate (length ks) (0::real) ! fst ik + w (snd ik)) (enumerate 0 ks)
      = map (\<lambda>ik. w (snd ik)) (enumerate 0 ks)"
    by (rule map_cong[OF refl]) (auto simp: in_set_enumerate_eq)
  then show ?thesis by (simp add: map_snd_of_enumerate)
qed

lemma fit_returns_I:
  assumes "unique y = [] \<or> length y = shape0 X"
  shows "fit_gaussian_classifier X y ''I''
           = Inr \<lparr>gtype = ''I'', priors = map (class_prior X y) (unique y),
                  means = map (class_mean X y) (unique y),
                  variances = map (\<lambda>k. clip_lo (1 / 10 ^ 9) (class_scatter X y k)) (unique y)\<rparr>"
  using assms
  by (auto simp add: fit_gaussian_classifier_def Let_def fit_step_priors fit_step_means
      fit_step_variances_I fold_update_enumerate fold_accumulate_enumerate
      map_replicate_zero_enumerate)

lemma fit_returns_i:
  assumes "unique y = [] \<or> length y = shape0 X"
  shows "fit_gaussian_classifier X y ''i''
           = Inr \<lparr>gtype = ''i'', priors = map (class_prior X y) (unique y),
                  means = map (class_mean X y) (unique y),
                  variances = [clip_lo (1 / 10 ^ 9)
                     ((\<Sum>k\<leftarrow>unique y. class_scatter X y k) / real (length (unique y)))]\<rparr>"
  using assms
  by (auto simp add: fit_gaussian_classifier_def Let_def fit_step_priors fit_step_means
      fit_step_variances_i fold_update_enumerate fold_accumulate_head map_snd_of_enumerate)



lemma length_mask_rows:
  "length xs = length y \<Longrightarrow> length (mask_rows xs y k) = count_list y k"
proof -
  assume len: "length xs = length y"
  have "length (filter (\<lambda>p. snd p = k) (zip xs y)) = length (filter (\<lambda>l. l = k) (map snd (zip xs y)))"
    by (simp add: filter_map comp_def)
  also have "\<dots> = length (filter (\<lambda>l. l = k) y)" using len by simp
  also have "\<dots> = count_list y k"
  proof -
    have "(\<lambda>l. l = k) = (=) k" by auto
    then show ?thesis by (simp add: count_list_eq_length_filter)
  qed
  finally show ?thesis by (simp add: mask_rows_def)
qed

lemma set_unique: "set (unique y) = set y"
  by (simp add: unique_def)

lemma distinct_unique: "distinct (unique y)"
  by (simp add: unique_def)

lemma unique_Nil: "unique y = [] \<longleftrightarrow> y = []"
  using set_unique[of y] by (metis set_empty)

lemma sum_counts_unique: "(\<Sum>k\<leftarrow>unique y. count_list y k) = length y"
proof -
  have "(\<Sum>k\<leftarrow>unique y. count_list y k) = sum (count_list y) (set (unique y))"
    by (rule sum_list_distinct_conv_sum_set[OF distinct_unique])
  also have "\<dots> = length y"
    by (rule sum_count_set) (simp_all add: set_unique)
  finally show ?thesis .
qed

lemma sum_list_divide: "(\<Sum>k\<leftarrow>ks. f k / c) = (\<Sum>k\<leftarrow>ks. f k) / (c::real)"
  by (induction ks) (simp_all add: add_divide_distrib)

lemma sum_list_real: "(\<Sum>k\<leftarrow>ks. real (f k)) = real (\<Sum>k\<leftarrow>ks. f k)"
  by (induction ks) simp_all

lemma priors_sum_one:
  assumes "length y = shape0 X" "y \<noteq> []"
  shows "sum_list (map (class_prior X y) (unique y)) = 1"
proof -
  have len: "length (rows X) = length y" using assms by (simp add: shape0_def)
  have "class_prior X y = (\<lambda>k. real (count_list y k) / real (length y))"
    using len by (simp add: class_prior_def length_mask_rows shape0_def fun_eq_iff)
  then have "sum_list (map (class_prior X y) (unique y))
      = (\<Sum>k\<leftarrow>unique y. real (count_list y k) / real (length y))"
    by simp
  also have "\<dots> = (\<Sum>k\<leftarrow>unique y. real (count_list y k)) / real (length y)"
    by (rule sum_list_divide)
  also have "(\<Sum>k\<leftarrow>unique y. real (count_list y k)) = real (\<Sum>k\<leftarrow>unique y. count_list y k)"
    by (rule sum_list_real)
  finally have "sum_list (map (class_prior X y) (unique y)) = real (length y) / real (length y)"
    by (simp add: sum_counts_unique)
  moreover have "length y \<noteq> 0" using assms(2) by simp
  ultimately show ?thesis by simp
qed



section \<open>The worked example\<close>

lemma example_is_dataset: "labeled_dataset example_X example_y"
  by (simp add: labeled_dataset_def example_X_def example_y_def shape0_def)

lemma example_unique: "unique example_y = [0, 1]"
  by (simp add: unique_def example_y_def)

lemma example_class_0: "mask_rows (rows example_X) example_y 0 = [[-1], [0], [1]]"
  by (simp add: mask_rows_def example_X_def example_y_def)

lemma example_class_1: "mask_rows (rows example_X) example_y 1 = [[3], [4], [5]]"
  by (simp add: mask_rows_def example_X_def example_y_def)


lemma example_fit_model:
  assumes "g = ''I'' \<or> g = ''i''"
  shows "fit_gaussian_classifier example_X example_y g = Inr (example_model g)"
proof -
  have len: "unique example_y = [] \<or> length example_y = shape0 example_X"
    using example_is_dataset by (simp add: labeled_dataset_def)
  have p: "class_prior example_X example_y 0 = 1 / 2" "class_prior example_X example_y 1 = 1 / 2"
    by (simp_all add: class_prior_def example_class_0 example_class_1)
       (simp_all add: example_X_def shape0_def)
  have mu: "class_mean example_X example_y 0 = [0]" "class_mean example_X example_y 1 = [4]"
    by (simp_all add: class_mean_def example_class_0 example_class_1)
       (simp_all add: example_X_def mean_axis0_def)
  have v: "class_scatter example_X example_y 0 = 2 / 3" "class_scatter example_X example_y 1 = 2 / 3"
    by (simp_all add: class_scatter_def mu example_class_0 example_class_1 sq_norm_def power2_eq_square)
       (simp_all add: example_X_def)
  from assms show ?thesis
  proof
    assume "g = ''I''"
    then show ?thesis
      by (simp add: fit_returns_I[OF len] example_unique p mu v clip_lo_def example_model_def)
  next
    assume "g = ''i''"
    then show ?thesis
      by (simp add: fit_returns_i[OF len] example_unique p mu v clip_lo_def example_model_def)
  qed
qed

lemma clip_lo_ge: "lo \<le> clip_lo lo v"
  by (simp add: clip_lo_def)

lemma clipped_all_ge: "list_all (\<lambda>v. lo \<le> v) (map (\<lambda>k. clip_lo lo (f k)) ks)"
  by (simp only: list_all_iff set_map) (blast intro: clip_lo_ge)

section \<open>Claims about fit\_gaussian\_classifier\<close>



text \<open>
  Claim C3. Fitting the samples \<open>-1, 0, 1\<close> of class \<open>0\<close> and \<open>3, 4, 5\<close> of class \<open>1\<close>
  gives the priors \<open>1/2, 1/2\<close> and the means \<open>0\<close> and \<open>4\<close>, the variances \<open>2/3, 2/3\<close> in
  the per-class mode and the single variance \<open>2/3\<close> in the shared mode.
\<close>

theorem example_fit:
  "fit_gaussian_classifier example_X example_y ''I''
     = Inr \<lparr>gtype = ''I'', priors = [1 / 2, 1 / 2], means = [[0], [4]], variances = [2 / 3, 2 / 3]\<rparr>
   \<and> fit_gaussian_classifier example_X example_y ''i''
     = Inr \<lparr>gtype = ''i'', priors = [1 / 2, 1 / 2], means = [[0], [4]], variances = [2 / 3]\<rparr>"
  by (simp add: example_fit_model example_model_def)

text \<open>
  Claim C5, as stated, for every labeled dataset: the priors of the fitted model sum
  to \<open>1\<close> within \<open>1 / 10^9\<close>. A dataset with no sample is fitted without error, to a
  model with no class, whose priors sum to \<open>0\<close>.
\<close>

theorem empty_dataset_priors_counterexample:
  "labeled_dataset (Matrix 1 []) []
   \<and> fit_gaussian_classifier (Matrix 1 []) [] ''I''
       = Inr \<lparr>gtype = ''I'', priors = [], means = [], variances = []\<rparr>
   \<and> \<not> \<bar>sum_list (priors (projr (fit_gaussian_classifier (Matrix 1 []) [] ''I''))) - 1\<bar> \<le> 1 / 10 ^ 9"
  by (simp add: labeled_dataset_def shape0_def fit_gaussian_classifier_def unique_def)

text \<open>
  Claim C5, amended. For every labeled dataset with at least one sample and at least
  one column, and both modes, the priors of the fitted model sum to \<open>1\<close> (exactly, so
  within \<open>1 / 10^9\<close>) and every variance is at least \<open>1 / 10^9\<close>. With no column the
  quotient of line 90 is \<open>0 / 0\<close>, which numpy makes a NaN that the floor keeps.
\<close>

theorem fitted_model_invariants:
  assumes "labeled_dataset X y" and "y \<noteq> []" and "0 < ncols X" and "g = ''I'' \<or> g = ''i''"
  shows "\<exists>m. fit_gaussian_classifier X y g = Inr m
           \<and> sum_list (priors m) = 1
           \<and> \<bar>sum_list (priors m) - 1\<bar> \<le> 1 / 10 ^ 9
           \<and> list_all (\<lambda>v. 1 / 10 ^ 9 \<le> v) (variances m)"
proof -
  have len: "length y = shape0 X" using assms(1) by (simp add: labeled_dataset_def)
  have one: "sum_list (map (class_prior X y) (unique y)) = 1"
    by (rule priors_sum_one[OF len assms(2)])
  from assms(4) show ?thesis
  proof
    assume g: "g = ''I''"
    let ?m = "\<lparr>gtype = ''I'', priors = map (class_prior X y) (unique y),
                means = map (class_mean X y) (unique y),
                variances = map (\<lambda>k. clip_lo (1 / 10 ^ 9) (class_scatter X y k)) (unique y)\<rparr>"
    have "fit_gaussian_classifier X y g = Inr ?m"
      using fit_returns_I[of y X] len g by simp
    moreover have "sum_list (priors ?m) = 1" using one by simp
    moreover have "list_all (\<lambda>v. 1 / 10 ^ 9 \<le> v) (variances ?m)"
      using clipped_all_ge[of "1 / 10 ^ 9" "class_scatter X y" "unique y"] by simp
    ultimately show ?thesis by force
  next
    assume g: "g = ''i''"
    let ?v = "clip_lo (1 / 10 ^ 9) ((\<Sum>k\<leftarrow>unique y. class_scatter X y k) / real (length (unique y)))"
    let ?m = "\<lparr>gtype = ''i'', priors = map (class_prior X y) (unique y),
                means = map (class_mean X y) (unique y), variances = [?v]\<rparr>"
    have "fit_gaussian_classifier X y g = Inr ?m"
      using fit_returns_i[of y X] len g by simp
    moreover have "sum_list (priors ?m) = 1" using one by simp
    moreover have "list_all (\<lambda>v. 1 / 10 ^ 9 \<le> v) (variances ?m)"
      using clip_lo_ge[of "1 / 10 ^ 9"] by simp
    ultimately show ?thesis by force
  qed
qed

theorem fitted_model_invariants_witness:
  "labeled_dataset example_X example_y \<and> example_y \<noteq> [] \<and> 0 < ncols example_X
   \<and> (\<exists>m. fit_gaussian_classifier example_X example_y ''I'' = Inr m
         \<and> sum_list (priors m) = 1 \<and> list_all (\<lambda>v. 1 / 10 ^ 9 \<le> v) (variances m))"
proof -
  have y: "example_y \<noteq> []" by (simp add: example_y_def)
  have D: "0 < ncols example_X" by (simp add: example_X_def)
  from fitted_model_invariants[OF example_is_dataset y D, of "''I''"] example_is_dataset y D
  show ?thesis by auto
qed

text \<open>
  Claim C6. The fit raises the unsupported-mode error exactly when the tag is neither
  \<open>''I''\<close> nor \<open>''i''\<close>; with one of the two tags and a labeled dataset it returns a
  model.
\<close>

theorem unsupported_mode_iff:
  "((\<exists>s. fit_gaussian_classifier X y g = Inl (UnsupportedCovarianceMode s)) \<longleftrightarrow> g \<notin> {''I'', ''i''})
   \<and> (labeled_dataset X y \<and> g \<in> {''I'', ''i''} \<longrightarrow> (\<exists>m. fit_gaussian_classifier X y g = Inr m))"
proof -
  have "fit_gaussian_classifier X y g = Inl (UnsupportedCovarianceMode g)" if "g \<notin> {''I'', ''i''}"
    using that by (simp add: fit_gaussian_classifier_def)
  moreover have "\<not> (\<exists>s. fit_gaussian_classifier X y g = Inl (UnsupportedCovarianceMode s))"
    if "g \<in> {''I'', ''i''}"
    using that by (auto simp add: fit_gaussian_classifier_def Let_def)
  moreover have "\<exists>m. fit_gaussian_classifier X y g = Inr m"
    if "labeled_dataset X y" "g \<in> {''I'', ''i''}"
    using that fit_returns_I[of y X] fit_returns_i[of y X]
    by (auto simp add: labeled_dataset_def)
  ultimately show ?thesis by blast
qed

theorem unsupported_mode_iff_witness:
  "labeled_dataset example_X example_y \<and> ''i'' \<in> {''I'', ''i''}
   \<and> (\<exists>m. fit_gaussian_classifier example_X example_y ''i'' = Inr m)
   \<and> ''full'' \<notin> {''I'', ''i''}
   \<and> (\<exists>s. fit_gaussian_classifier example_X example_y ''full'' = Inl (UnsupportedCovarianceMode s))"
  using unsupported_mode_iff[of example_X example_y "''i''"]
        unsupported_mode_iff[of example_X example_y "''full''"] example_is_dataset
  by simp

section \<open>gaussian\_pdf in closed form\<close>

lemma class_density_gauss: "class_density D mu s xs = map (gauss D mu s) xs"
  by (simp add: class_density_def gauss_def Let_def)

lemma set_column_map:
  "set_column k (map c xs) (map r xs) = map (\<lambda>x. (r x)[k := c x]) xs"
  by (simp add: set_column_def zip_map_map zip_same_conv_map comp_def)

lemma update_next_column:
  assumes "n < K"
  shows "(map g [0..<n] @ replicate (K - n) (0::real))[n := g n]
           = map g [0..<Suc n] @ replicate (K - Suc n) 0"
proof -
  from assms obtain d where d: "K - n = Suc d" "K - Suc n = d"
    by (metis Suc_diff_Suc)
  show ?thesis by (simp add: list_update_append d)
qed

lemma pdf_fold:
  assumes "length (means m) = length (priors m)"
    and "length (variances m) = (if gtype m = ''i'' then 1 else length (priors m))"
    and "n \<le> length (priors m)"
  shows "fold (pdf_step X m) [0..<n] (Inr (replicate (shape0 X) (replicate (length (priors m)) 0)))
           = Inr (map (\<lambda>x. map (\<lambda>k. gauss (ncols X) (means m ! k) (sigma2_of m k) x) [0..<n]
                            @ replicate (length (priors m) - n) 0) (rows X))"
  using assms(3)
proof (induction n)
  case 0
  show ?case by (simp add: shape0_def map_replicate_const)
next
  case (Suc n)
  let ?K = "length (priors m)"
  let ?g = "\<lambda>x k. gauss (ncols X) (means m ! k) (sigma2_of m k) x"
  have n: "n < ?K" using Suc.prems by simp
  have var: "\<not> length (variances m) \<le> (if gtype m = ''i'' then 0 else n)"
    using assms(2) n by simp
  have step: "pdf_step X m n (Inr (map (\<lambda>x. map (?g x) [0..<n] @ replicate (?K - n) 0) (rows X)))
      = Inr (map (\<lambda>x. (map (?g x) [0..<n] @ replicate (?K - n) 0)[n := ?g x n]) (rows X))"
    using n var assms(1)
    by (simp add: pdf_step_def Let_def class_density_gauss set_column_map sigma2_of_def)
  have "fold (pdf_step X m) [0..<Suc n] (Inr (replicate (shape0 X) (replicate ?K 0)))
      = pdf_step X m n (fold (pdf_step X m) [0..<n] (Inr (replicate (shape0 X) (replicate ?K 0))))"
    by simp
  also have "\<dots> = Inr (map (\<lambda>x. (map (?g x) [0..<n] @ replicate (?K - n) 0)[n := ?g x n]) (rows X))"
    using Suc.IH n step by simp
  also have "\<dots> = Inr (map (\<lambda>x. map (?g x) [0..<Suc n] @ replicate (?K - Suc n) 0) (rows X))"
  proof -
    have "(map (?g x) [0..<n] @ replicate (?K - n) 0)[n := ?g x n]
            = map (?g x) [0..<Suc n] @ replicate (?K - Suc n) 0" for x
      by (rule update_next_column[OF n])
    then show ?thesis by (simp only:)
  qed
  finally show ?case .
qed

lemma divide_rows:
  "map (\<lambda>p. map (\<lambda>v. v / snd p) (fst p)) (zip (map J xs) (map E xs))
     = map (\<lambda>x. map (\<lambda>v. v / E x) (J x)) xs"
  by (induction xs) simp_all

lemma gaussian_pdf_closed:
  assumes "length (means m) = length (priors m)"
    and "length (variances m) = (if gtype m = ''i'' then 1 else length (priors m))"
  shows "gaussian_pdf X m
           = Inr \<lparr>px = map (\<lambda>x. evidence_row m (densities X m x)) (rows X),
                  px_given_c = map (densities X m) (rows X),
                  p_c_given_x = map (\<lambda>x. posterior_row m (densities X m x)) (rows X),
                  px_and_c = map (\<lambda>x. joint_row m (densities X m x)) (rows X)\<rparr>"
proof -
  let ?pxc = "map (densities X m) (rows X)"
  have fold: "fold (pdf_step X m) [0..<length (priors m)]
          (Inr (replicate (shape0 X) (replicate (length (priors m)) 0))) = Inr ?pxc"
    using pdf_fold[OF assms, of "length (priors m)" X] by (simp add: densities_def)
  have ev: "map (clip_lo (1 / 10 ^ 12)) (map (\<lambda>row. \<Sum>p\<leftarrow>zip row (priors m). fst p * snd p) ?pxc)
          = map (evidence_row m) ?pxc"
    by (simp add: evidence_row_def joint_row_def)
  have joint: "map (\<lambda>row. map (\<lambda>p. fst p * snd p) (zip row (priors m))) ?pxc = map (joint_row m) ?pxc"
    by (simp add: joint_row_def)
  have post: "map (\<lambda>p. map (\<lambda>v. v / snd p) (fst p)) (zip (map (joint_row m) ?pxc) (map (evidence_row m) ?pxc))
          = map (posterior_row m) ?pxc"
    unfolding divide_rows by (simp add: posterior_row_def)
  have "gaussian_pdf X m
      = Inr \<lparr>px = map (evidence_row m) ?pxc, px_given_c = ?pxc,
               p_c_given_x = map (posterior_row m) ?pxc, px_and_c = map (joint_row m) ?pxc\<rparr>"
    unfolding gaussian_pdf_def Let_def fold by (simp only: sum.case ev joint post)
  then show ?thesis by (simp add: comp_def)
qed


lemma gauss_pos: "0 < s \<Longrightarrow> 0 < gauss D mu s x"
  by (simp add: gauss_def)














lemma model_shape:
  assumes "wf_model D m"
  shows "length (means m) = length (priors m)"
    and "length (variances m) = (if gtype m = ''i'' then 1 else length (priors m))"
  using assms by (simp_all add: wf_model_def)


lemma far_density_pos: "0 < far_density"
  unfolding far_density_def by (rule gauss_pos) simp










lemma normalize_zero_row:
  assumes "sum_list (row :: nat list) = 0"
  shows "map (\<lambda>c. nan_to_num (true_divide (real c) (real (sum_list row)))) row = map (\<lambda>_. 0) row"
proof (rule map_cong[OF refl])
  fix c assume "c \<in> set row"
  then have "c = 0" using assms by simp
  then show "nan_to_num (true_divide (real c) (real (sum_list row))) = 0"
    using assms by (simp add: true_divide_def nan_to_num_def)
qed

lemma normalize_nonzero_row:
  assumes "sum_list (row :: nat list) \<noteq> 0"
  shows "sum_list (map (\<lambda>c. nan_to_num (true_divide (real c) (real (sum_list row)))) row) = 1"
proof -
  let ?s = "real (sum_list row)"
  have s: "?s \<noteq> 0" using assms by simp
  have pt: "nan_to_num (true_divide a b) = a / b" if "b \<noteq> 0" for a b
    using that by (simp add: true_divide_def nan_to_num_def)
  have "sum_list (map (\<lambda>c. nan_to_num (true_divide (real c) ?s)) row) = (\<Sum>c\<leftarrow>row. real c / ?s)"
    by (simp only: pt[OF s])
  also have "\<dots> = (\<Sum>c\<leftarrow>row. real c) / ?s" by (rule sum_list_divide)
  also have "(\<Sum>c\<leftarrow>row. real c) = ?s"
    using sum_list_real[of "\<lambda>c. c" row] by simp
  finally show ?thesis using s by simp
qed

lemma evaluate_confusion_norm:
  "evaluate_classifier X y m = Inr r \<Longrightarrow> confusion_norm r = normalize_rows (confusion r)"
  by (auto simp add: evaluate_classifier_def Let_def split: sum.splits if_splits)

lemma evaluate_returns:
  assumes "scorable X y m"
  shows "\<exists>r. evaluate_classifier X y m = Inr r"
proof -
  have wf: "wf_model (ncols X) m" and K: "0 < length (priors m)"
    and len: "length y = shape0 X" and y: "unique y \<noteq> []"
    and two: "length (unique y) = 2 \<Longrightarrow> 2 \<le> length (priors m) \<and> (unique y = [0, 1] \<or> unique y = [-1, 1])"
    using assms by (simp_all add: scorable_def labeled_dataset_def unique_Nil)
  note pdf = gaussian_pdf_closed[OF model_shape[OF wf], of X]
  show ?thesis
  proof (cases "length (unique y) = 2")
    case True
    then show ?thesis using two K len y by (auto simp add: evaluate_classifier_def pdf Let_def)
  next
    case False
    then show ?thesis using K len y by (simp add: evaluate_classifier_def pdf Let_def)
  qed
qed

lemma origin_prediction:
  "\<exists>r. evaluate_classifier origin_query [l] unit_model = Inr r
       \<and> y_pred r = [0] \<and> confusion r = [[if l = 0 then 1 else 0]]"
proof -
  have shape: "length (means unit_model) = length (priors unit_model)"
    "length (variances unit_model) = (if gtype unit_model = ''i'' then 1 else length (priors unit_model))"
    by (simp_all add: unit_model_def)
  have K: "length (priors unit_model) = 1" by (simp add: unit_model_def)
  have sh: "shape0 origin_query = 1" "rows origin_query = [[0]]"
    by (simp_all add: shape0_def origin_query_def)
  have post: "\<exists>v. posterior_row unit_model (densities origin_query unit_model [0]) = [v]"
    by (simp add: posterior_row_def joint_row_def densities_def unit_model_def)
  then obtain v where v: "posterior_row unit_model (densities origin_query unit_model [0]) = [v]" ..
  show ?thesis
    by (simp add: evaluate_classifier_def gaussian_pdf_closed[OF shape] K sh v Let_def unique_def
        argmax_def confusion_matrix_def)
qed

section \<open>The scan of argmax\<close>

lemma argmax_scan_first_maximum:
  "(argmax_scan b v i xs = b \<and> (\<forall>x\<in>set xs. x \<le> v))
   \<or> (\<exists>j<length xs. argmax_scan b v i xs = i + j \<and> v < xs ! j
          \<and> (\<forall>l<j. xs ! l < xs ! j) \<and> (\<forall>l<length xs. xs ! l \<le> xs ! j))"
proof (induction xs arbitrary: b v i)
  case Nil
  then show ?case by simp
next
  case (Cons x xs)
  show ?case
  proof (cases "v < x")
    case True
    from Cons.IH[of i x "Suc i"] show ?thesis
    proof
      assume "argmax_scan i x (Suc i) xs = i \<and> (\<forall>y\<in>set xs. y \<le> x)"
      then have "argmax_scan b v i (x # xs) = i + 0 \<and> v < (x # xs) ! 0
          \<and> (\<forall>l<0. (x # xs) ! l < (x # xs) ! 0) \<and> (\<forall>l<length (x # xs). (x # xs) ! l \<le> (x # xs) ! 0)"
        using True by (auto simp: nth_Cons split: nat.splits)
      then show ?thesis by blast
    next
      assume "\<exists>j<length xs. argmax_scan i x (Suc i) xs = Suc i + j \<and> x < xs ! j
          \<and> (\<forall>l<j. xs ! l < xs ! j) \<and> (\<forall>l<length xs. xs ! l \<le> xs ! j)"
      then obtain j where j: "j < length xs" "argmax_scan i x (Suc i) xs = Suc i + j" "x < xs ! j"
        "\<forall>l<j. xs ! l < xs ! j" "\<forall>l<length xs. xs ! l \<le> xs ! j" by blast
      have "Suc j < length (x # xs) \<and> argmax_scan b v i (x # xs) = i + Suc j \<and> v < (x # xs) ! Suc j
          \<and> (\<forall>l<Suc j. (x # xs) ! l < (x # xs) ! Suc j)
          \<and> (\<forall>l<length (x # xs). (x # xs) ! l \<le> (x # xs) ! Suc j)"
        using True j by (auto simp: nth_Cons split: nat.splits)
      then show ?thesis by blast
    qed
  next
    case False
    from Cons.IH[of b v "Suc i"] show ?thesis
    proof
      assume "argmax_scan b v (Suc i) xs = b \<and> (\<forall>y\<in>set xs. y \<le> v)"
      then show ?thesis using False by auto
    next
      assume "\<exists>j<length xs. argmax_scan b v (Suc i) xs = Suc i + j \<and> v < xs ! j
          \<and> (\<forall>l<j. xs ! l < xs ! j) \<and> (\<forall>l<length xs. xs ! l \<le> xs ! j)"
      then obtain j where j: "j < length xs" "argmax_scan b v (Suc i) xs = Suc i + j" "v < xs ! j"
        "\<forall>l<j. xs ! l < xs ! j" "\<forall>l<length xs. xs ! l \<le> xs ! j" by blast
      have "Suc j < length (x # xs) \<and> argmax_scan b v i (x # xs) = i + Suc j \<and> v < (x # xs) ! Suc j
          \<and> (\<forall>l<Suc j. (x # xs) ! l < (x # xs) ! Suc j)
          \<and> (\<forall>l<length (x # xs). (x # xs) ! l \<le> (x # xs) ! Suc j)"
        using False j by (auto simp: nth_Cons split: nat.splits)
      then show ?thesis by blast
    qed
  qed
qed

lemma argmax_first_maximum:
  assumes "row \<noteq> []"
  shows "argmax row < length row
         \<and> (\<forall>l<argmax row. row ! l < row ! argmax row)
         \<and> (\<forall>l<length row. row ! l \<le> row ! argmax row)"
proof -
  obtain x xs where row: "row = x # xs" using assms by (cases row) auto
  from argmax_scan_first_maximum[of 0 x 1 xs] show ?thesis
  proof
    assume "argmax_scan 0 x 1 xs = 0 \<and> (\<forall>y\<in>set xs. y \<le> x)"
    then show ?thesis by (auto simp: row argmax_def nth_Cons split: nat.splits)
  next
    assume "\<exists>j<length xs. argmax_scan 0 x 1 xs = 1 + j \<and> x < xs ! j
          \<and> (\<forall>l<j. xs ! l < xs ! j) \<and> (\<forall>l<length xs. xs ! l \<le> xs ! j)"
    then obtain j where j: "j < length xs" "argmax_scan 0 x 1 xs = Suc j" "x < xs ! j"
        "\<forall>l<j. xs ! l < xs ! j" "\<forall>l<length xs. xs ! l \<le> xs ! j" by auto
    then show ?thesis by (auto simp: row argmax_def nth_Cons split: nat.splits)
  qed
qed

section \<open>Claims about gaussian\_pdf and evaluate\_classifier\<close>







text \<open>
  Claim C7. \<open>evaluate_classifier\<close> returns on every input on which no library call
  raises, and whenever it returns, every row of the normalized confusion matrix sums
  to \<open>1\<close>, except a row whose counts are all \<open>0\<close>, which is a row of zeros: its
  quotients \<open>0 / 0\<close> are NaN, and \<^verbatim>\<open>nan_to_num\<close> makes them \<open>0\<close>.
\<close>

theorem confusion_rows_normalized:
  "(scorable X y m \<longrightarrow> (\<exists>r. evaluate_classifier X y m = Inr r))
   \<and> (evaluate_classifier X y m = Inr r \<longrightarrow>
        length (confusion_norm r) = length (confusion r)
        \<and> (\<forall>i<length (confusion r).
              (sum_list (confusion r ! i) = 0 \<longrightarrow>
                 confusion_norm r ! i = map (\<lambda>_. 0) (confusion r ! i))
            \<and> (sum_list (confusion r ! i) \<noteq> 0 \<longrightarrow> sum_list (confusion_norm r ! i) = 1)))"
proof (intro conjI impI)
  assume "scorable X y m"
  then show "\<exists>r. evaluate_classifier X y m = Inr r" by (rule evaluate_returns)
next
  assume r: "evaluate_classifier X y m = Inr r"
  show "length (confusion_norm r) = length (confusion r)"
    by (simp add: evaluate_confusion_norm[OF r] normalize_rows_def)
  show "\<forall>i<length (confusion r).
              (sum_list (confusion r ! i) = 0 \<longrightarrow>
                 confusion_norm r ! i = map (\<lambda>_. 0) (confusion r ! i))
            \<and> (sum_list (confusion r ! i) \<noteq> 0 \<longrightarrow> sum_list (confusion_norm r ! i) = 1)"
    using normalize_zero_row normalize_nonzero_row
    by (simp add: evaluate_confusion_norm[OF r] normalize_rows_def)
qed

theorem confusion_rows_normalized_witness:
  "scorable origin_query [5] unit_model
   \<and> (\<exists>r. evaluate_classifier origin_query [5] unit_model = Inr r
        \<and> confusion r = [[0]] \<and> confusion_norm r = [[0]])
   \<and> (\<exists>r. evaluate_classifier origin_query [0] unit_model = Inr r
        \<and> confusion r = [[1]] \<and> sum_list (confusion_norm r ! 0) = 1)"
proof -
  have sc: "scorable origin_query [5] unit_model"
    by (simp add: scorable_def wf_model_def labeled_dataset_def origin_query_def unit_model_def
        shape0_def unique_def)
  obtain r5 where r5: "evaluate_classifier origin_query [5] unit_model = Inr r5"
    and c5: "confusion r5 = [[0]]"
    using origin_prediction[of 5] by auto
  obtain r0 where r0: "evaluate_classifier origin_query [0] unit_model = Inr r0"
    and c0: "confusion r0 = [[1]]"
    using origin_prediction[of 0] by auto
  have "confusion_norm r5 = [[0]]"
    using confusion_rows_normalized[of origin_query "[5]" unit_model r5] r5 c5
    by (cases "confusion_norm r5") auto
  moreover have "sum_list (confusion_norm r0 ! 0) = 1"
    using confusion_rows_normalized[of origin_query "[0]" unit_model r0] r0 c0 by simp
  ultimately show ?thesis using sc r5 c5 r0 c0 by blast
qed

section \<open>The sampling loop\<close>

lemma length_scatter: "length (scatter bs blk xs) = length xs"
  by (induction bs blk xs rule: scatter.induct) simp_all

lemma scatter_nth:
  "length bs = length xs \<Longrightarrow> length (filter (\<lambda>b. b) bs) \<le> length blk \<Longrightarrow> i < length xs \<Longrightarrow>
   scatter bs blk xs ! i
     = (if bs ! i then blk ! length (filter (\<lambda>b. b) (take i bs)) else xs ! i)"
  by (induction bs blk xs arbitrary: i rule: scatter.induct)
     (auto simp: nth_Cons split: nat.splits)

lemma sample_step_agree:
  assumes "agree_below components k a b" and "normal_shape G"
  shows "agree_below components (Suc k) (sample_step G mu vars components k a)
           (sample_step G mu vars components k b)"
proof (cases a)
  case (Inl e)
  then show ?thesis using assms(1) by (simp add: agree_below_def sample_step_def)
next
  case (Inr sa)
  then obtain sb where b: "b = Inr sb" using assms(1) by (cases b) (simp_all add: agree_below_def)
  obtain Xa g where sa: "sa = (Xa, g)" by (cases sa)
  obtain Xb g' where sb: "sb = (Xb, g')" by (cases sb)
  have g: "g' = g" and la: "length Xa = length components" and lb: "length Xb = length components"
    and ag: "\<And>i. i < length components \<Longrightarrow> components ! i < k \<Longrightarrow> Xa ! i = Xb ! i"
    using assms(1) by (simp_all add: agree_below_def Inr b sa sb)
  let ?idx = "map (\<lambda>c. c = k) components"
  show ?thesis
  proof (cases "list_ex (\<lambda>b. b) ?idx")
    case False
    then have none: "components ! i \<noteq> k" if "i < length components" for i
      using that by (auto simp: list_ex_iff)
    have "Xa ! i = Xb ! i" if "i < length components" "components ! i < Suc k" for i
      using that none[of i] ag[of i] by (simp add: less_Suc_eq)
    then show ?thesis
      using False la lb by (simp add: agree_below_def sample_step_def Inr b sa sb g Let_def)
  next
    case True
    show ?thesis
    proof (cases "length vars \<le> k \<or> vars ! k < 0 \<or> length (rows mu) \<le> k")
      case True
      then show ?thesis
        using \<open>list_ex (\<lambda>b. b) ?idx\<close>
        by (auto simp add: agree_below_def sample_step_def Inr b sa sb g Let_def)
    next
      case False
      let ?drawn = "normal G g (rows mu ! k) (sqrt (vars ! k)) (length (filter (\<lambda>b. b) ?idx)) (ncols mu)"
      let ?blk = "fst ?drawn"
      have blk: "length (filter (\<lambda>b. b) ?idx) \<le> length ?blk"
        using assms(2) by (simp add: normal_shape_def)
      have stepa: "sample_step G mu vars components k a = Inr (scatter ?idx ?blk Xa, snd ?drawn)"
        and stepb: "sample_step G mu vars components k b = Inr (scatter ?idx ?blk Xb, snd ?drawn)"
        using False \<open>list_ex (\<lambda>b. b) ?idx\<close>
        by (simp_all add: sample_step_def Inr b sa sb g Let_def)
      have "scatter ?idx ?blk Xa ! i = scatter ?idx ?blk Xb ! i"
        if i: "i < length components" and c: "components ! i < Suc k" for i
      proof -
        have na: "scatter ?idx ?blk Xa ! i
            = (if ?idx ! i then ?blk ! length (filter (\<lambda>b. b) (take i ?idx)) else Xa ! i)"
          using la blk i by (intro scatter_nth) simp_all
        have nb: "scatter ?idx ?blk Xb ! i
            = (if ?idx ! i then ?blk ! length (filter (\<lambda>b. b) (take i ?idx)) else Xb ! i)"
          using lb blk i by (intro scatter_nth) simp_all
        show ?thesis
        proof (cases "components ! i = k")
          case True
          then have "?idx ! i" using i by simp
          then show ?thesis unfolding na nb by (simp only: if_True)
        next
          case False
          then have "Xa ! i = Xb ! i" using ag[OF i] c by simp
          moreover have "\<not> ?idx ! i" using False i by simp
          ultimately show ?thesis unfolding na nb by (simp only: if_False)
        qed
      qed
      then show ?thesis
        unfolding stepa stepb using la lb by (simp add: agree_below_def length_scatter)
    qed
  qed
qed

lemma sample_loop_agree:
  assumes "agree_below components 0 a b" and "normal_shape G"
  shows "agree_below components k (fold (sample_step G mu vars components) [0..<k] a)
           (fold (sample_step G mu vars components) [0..<k] b)"
proof (induction k)
  case 0
  show ?case using assms(1) by simp
next
  case (Suc k)
  show ?case using sample_step_agree[OF Suc.IH assms(2)] by simp
qed

lemma agree_all:
  assumes "agree_below components K a b" and "\<forall>c\<in>set components. c < K"
  shows "a = b"
proof (cases a)
  case (Inl e)
  then show ?thesis using assms(1) by (simp add: agree_below_def)
next
  case (Inr sa)
  then obtain sb where b: "b = Inr sb" using assms(1) by (cases b) (simp_all add: agree_below_def)
  have g: "snd sa = snd sb" and la: "length (fst sa) = length components"
    and lb: "length (fst sb) = length components"
    and ag: "\<And>i. i < length components \<Longrightarrow> components ! i < K \<Longrightarrow> fst sa ! i = fst sb ! i"
    using assms(1) by (simp_all add: agree_below_def Inr b)
  have "fst sa = fst sb"
  proof (rule nth_equalityI)
    show "length (fst sa) = length (fst sb)" using la lb by simp
    fix i assume "i < length (fst sa)"
    then have i: "i < length components" using la by simp
    then have "components ! i < K" using assms(2) by simp
    then show "fst sa ! i = fst sb ! i" using ag[OF i] by simp
  qed
  then show ?thesis using g Inr b by (simp add: prod_eq_iff)
qed

lemma gm_sample_draw:
  "gm_sample G entropy mem h n_samples priors_arg mu variances_arg random_state =
     (let p0 = asarray_float h priors_arg; psum = sum_list (snd p0) in
      if psum = 0 then Inl ValueError
      else let hp = idiv_inplace h p0 psum
           in gm_draw G entropy mem (fst hp) (snd hp) mu
                (snd (asarray_float (fst hp) variances_arg)) n_samples random_state)"
  by (simp add: gm_sample_def gm_draw_def Let_def)

lemma gm_draw_deterministic:
  assumes "choice_in_range G" and "normal_shape G"
  shows "gm_draw G entropy1 mem1 h' p mu vars n_samples (Some seed)
       = gm_draw G entropy2 mem2 h' p mu vars n_samples (Some seed)"
proof -
  let ?X0 = "\<lambda>mem. map (\<lambda>i. map (mem i) [0..<ncols mu]) [0..<n_samples]"
  have loop: "fold (sample_step G mu vars components) [0..<length p] (Inr (?X0 mem1, g))
            = fold (sample_step G mu vars components) [0..<length p] (Inr (?X0 mem2, g))"
    if c: "choice G (default_rng G seed) (length p) n_samples p = Inr (components, g)"
    for components g
  proof -
    have r: "length components = n_samples" "\<forall>c\<in>set components. c < length p"
      using assms(1) c unfolding choice_in_range_def by blast+
    have "agree_below components 0 (Inr (?X0 mem1, g)) (Inr (?X0 mem2, g))"
      using r(1) by (simp add: agree_below_def)
    from agree_all[OF sample_loop_agree[OF this assms(2)] r(2)] show ?thesis .
  qed
  show ?thesis
    by (auto simp add: gm_draw_def Let_def loop split: sum.splits prod.splits)
qed

lemma gm_draw_store:
  "gm_draw G entropy mem h' p mu vars n_samples random_state = Inr (h'', out) \<Longrightarrow> h'' = h'"
  by (auto simp add: gm_draw_def Let_def split: sum.splits prod.splits)

lemma gm_draw_any_store:
  "gm_draw G entropy mem h1 p mu vars n_samples random_state = Inr (h1, out) \<Longrightarrow>
   gm_draw G entropy mem h2 p mu vars n_samples random_state = Inr (h2, out)"
  by (auto simp add: gm_draw_def Let_def split: sum.splits prod.splits)

lemma normalized_sum: "t \<noteq> 0 \<Longrightarrow> t = sum_list xs \<Longrightarrow> sum_list (map (\<lambda>x. x / t) xs) = (1::real)"
  using sum_list_divide[of "\<lambda>x. x" t xs] by simp

lemma renormalize:
  assumes "sum_list (snd (asarray_float h a)) \<noteq> 0"
  shows "sum_list (snd (asarray_float (fst (idiv_inplace h (asarray_float h a) (sum_list (snd (asarray_float h a))))) a)) \<noteq> 0
       \<and> idiv_inplace (fst (idiv_inplace h (asarray_float h a) (sum_list (snd (asarray_float h a)))))
           (asarray_float (fst (idiv_inplace h (asarray_float h a) (sum_list (snd (asarray_float h a))))) a)
           (sum_list (snd (asarray_float (fst (idiv_inplace h (asarray_float h a) (sum_list (snd (asarray_float h a))))) a)))
         = idiv_inplace h (asarray_float h a) (sum_list (snd (asarray_float h a)))"
proof (cases a)
  case (Seq xs)
  then show ?thesis using assms by (simp add: asarray_float_def idiv_inplace_def)
next
  case (Ref r)
  show ?thesis
  proof (cases "v_dtype (h r) = Float64")
    case False
    then show ?thesis using assms Ref by (simp add: asarray_float_def idiv_inplace_def)
  next
    case True
    let ?xs = "v_data (h r)"
    let ?t = "sum_list ?xs"
    have t: "?t \<noteq> 0" using assms Ref True by (simp add: asarray_float_def)
    have one: "sum_list (map (\<lambda>x. x / ?t) ?xs) = 1" by (rule normalized_sum[OF t refl])
    show ?thesis
      using Ref True one by (simp add: asarray_float_def idiv_inplace_def Let_def comp_def)
  qed
qed

lemma gm_sample_store:
  assumes "gm_sample G entropy mem h n_samples priors_arg mu variances_arg random_state = Inr (h', out)"
  shows "h' = fst (idiv_inplace h (asarray_float h priors_arg)
                    (sum_list (snd (asarray_float h priors_arg))))"
proof -
  let ?t = "sum_list (snd (asarray_float h priors_arg))"
  let ?hp = "idiv_inplace h (asarray_float h priors_arg) ?t"
  have t: "?t \<noteq> 0" using assms by (auto simp add: gm_sample_draw Let_def split: if_splits)
  have "gm_draw G entropy mem (fst ?hp) (snd ?hp) mu
          (snd (asarray_float (fst ?hp) variances_arg)) n_samples random_state = Inr (h', out)"
    using assms t by (simp add: gm_sample_draw Let_def)
  then show ?thesis by (rule gm_draw_store)
qed

lemma toy_rng_ok: "choice_in_range toy_rng" "normal_shape toy_rng"
  by (auto simp add: choice_in_range_def normal_shape_def toy_rng_def split: if_splits)

lemma toy_run:
  "gm_sample toy_rng entropy (\<lambda>i j. u) mixture_store 3 (Ref 0) mixture_means (Ref 1) (Some 37)
     = Inr (normalized_store, toy_sample)"
proof -
  have up: "[0..<3] = [0, 1, 2]" "[0..<2] = [0, 1]" "[0..<1] = [0]"
    by (simp_all add: upt_rec)
  show ?thesis
    by (simp add: gm_sample_def asarray_float_def idiv_inplace_def mixture_store_def
        mixture_means_def toy_rng_def sample_step_def Let_def up normalized_store_def
        toy_sample_def)
qed

section \<open>Claims about gm\_sample\<close>

text \<open>
  Claim C8 says that the call leaves the contents of its arguments as they were, the
  priors included. Evaluated on the priors \<open>2, 1\<close> held in a float64 array:
  \<^verbatim>\<open>np.asarray\<close> returns that very array, the division of line 50 is in place, and
  after the call the caller's array holds \<open>2/3, 1/3\<close>. The variances are untouched.
\<close>

theorem priors_mutated_in_place:
  "v_data (mixture_store 0) = [2, 1]
   \<and> \<not> isl (gm_sample toy_rng 0 (\<lambda>i j. 0) mixture_store 3 (Ref 0) mixture_means (Ref 1) (Some 37))
   \<and> v_data (fst (projr (gm_sample toy_rng 0 (\<lambda>i j. 0) mixture_store 3 (Ref 0) mixture_means (Ref 1) (Some 37))) 0)
       = [2 / 3, 1 / 3]
   \<and> v_data (fst (projr (gm_sample toy_rng 0 (\<lambda>i j. 0) mixture_store 3 (Ref 0) mixture_means (Ref 1) (Some 37))) 1)
       = v_data (mixture_store 1)"
  unfolding toy_run by (simp add: mixture_store_def normalized_store_def)

text \<open>
  Claim C9. With a seed, the result of \<open>gm_sample\<close> is determined by the seed, the
  arrays passed and the sample count: it depends neither on the entropy of the system
  nor on what the memory handed out by \<^verbatim>\<open>np.empty\<close> held, every row being
  overwritten. A second call on the store the first one left returns the same pair
  again, the priors normalised in place being their own normalisation. The generator
  is any one whose \<open>choice\<close> returns indices in range and whose \<open>normal\<close> returns the
  shape asked for.
\<close>

theorem gm_sample_deterministic:
  assumes "choice_in_range G" and "normal_shape G"
  shows "gm_sample G entropy1 mem1 h n_samples priors_arg mu variances_arg (Some seed)
           = gm_sample G entropy2 mem2 h n_samples priors_arg mu variances_arg (Some seed)
         \<and> (gm_sample G entropy1 mem1 h n_samples priors_arg mu variances_arg (Some seed) = Inr (h', out)
              \<longrightarrow> gm_sample G entropy2 mem2 h' n_samples priors_arg mu variances_arg (Some seed) = Inr (h', out))"
proof
  show same: "gm_sample G entropy1 mem1 h n_samples priors_arg mu variances_arg (Some seed)
           = gm_sample G entropy2 mem2 h n_samples priors_arg mu variances_arg (Some seed)"
    using gm_draw_deterministic[OF assms] by (simp add: gm_sample_draw Let_def)
  show "gm_sample G entropy1 mem1 h n_samples priors_arg mu variances_arg (Some seed) = Inr (h', out)
          \<longrightarrow> gm_sample G entropy2 mem2 h' n_samples priors_arg mu variances_arg (Some seed) = Inr (h', out)"
  proof
    assume first: "gm_sample G entropy1 mem1 h n_samples priors_arg mu variances_arg (Some seed) = Inr (h', out)"
    let ?t = "sum_list (snd (asarray_float h priors_arg))"
    let ?hp = "idiv_inplace h (asarray_float h priors_arg) ?t"
    have t: "?t \<noteq> 0" using first by (auto simp add: gm_sample_draw Let_def split: if_splits)
    have draw: "gm_draw G entropy1 mem1 (fst ?hp) (snd ?hp) mu
                  (snd (asarray_float (fst ?hp) variances_arg)) n_samples (Some seed) = Inr (h', out)"
      using first t by (simp add: gm_sample_draw Let_def)
    have h': "h' = fst ?hp" by (rule gm_draw_store[OF draw])
    have again: "sum_list (snd (asarray_float h' priors_arg)) \<noteq> 0"
      "idiv_inplace h' (asarray_float h' priors_arg) (sum_list (snd (asarray_float h' priors_arg))) = ?hp"
      using renormalize[OF t] unfolding h' by simp_all
    have "gm_sample G entropy1 mem1 h' n_samples priors_arg mu variances_arg (Some seed) = Inr (h', out)"
      using again draw by (simp add: gm_sample_draw Let_def)
    moreover have "gm_sample G entropy1 mem1 h' n_samples priors_arg mu variances_arg (Some seed)
           = gm_sample G entropy2 mem2 h' n_samples priors_arg mu variances_arg (Some seed)"
      using gm_draw_deterministic[OF assms] by (simp add: gm_sample_draw Let_def)
    ultimately show "gm_sample G entropy2 mem2 h' n_samples priors_arg mu variances_arg (Some seed) = Inr (h', out)"
      by simp
  qed
qed

theorem gm_sample_deterministic_witness:
  "choice_in_range toy_rng \<and> normal_shape toy_rng
   \<and> gm_sample toy_rng 1 (\<lambda>i j. 0) mixture_store 3 (Ref 0) mixture_means (Ref 1) (Some 37)
       = gm_sample toy_rng 2 (\<lambda>i j. 1) mixture_store 3 (Ref 0) mixture_means (Ref 1) (Some 37)
   \<and> gm_sample toy_rng 1 (\<lambda>i j. 0) mixture_store 3 (Ref 0) mixture_means (Ref 1) (Some 37)
       = Inr (normalized_store, toy_sample)
   \<and> gm_sample toy_rng 2 (\<lambda>i j. 1) normalized_store 3 (Ref 0) mixture_means (Ref 1) (Some 37)
       = Inr (normalized_store, toy_sample)"
proof -
  note d = gm_sample_deterministic[OF toy_rng_ok, of 1 "\<lambda>i j. 0" mixture_store 3 "Ref 0"
      mixture_means "Ref 1" 37 2 "\<lambda>i j. 1" normalized_store toy_sample]
  have first: "gm_sample toy_rng 1 (\<lambda>i j. 0) mixture_store 3 (Ref 0) mixture_means (Ref 1) (Some 37)
       = Inr (normalized_store, toy_sample)"
    by (rule toy_run)
  from d first toy_rng_ok show ?thesis by blast
qed

end
